theory Spec2Isabelle
  imports Main "HOL-Library.Word" "HOL-Library.Monad_Syntax"
begin

unbundle bit_operations_syntax

section \<open>Data model of the HCI engine\<close>

text \<open>
  The engine is the Go type \<open>hci\<close> with its methods. Go's fixed-width unsigned integers
  are words, so every \<open>+\<close>, \<open>-\<close> and \<open>*\<close> below wraps as in the source. A Go function that
  returns \<open>error\<close> and mutates the receiver is a function to \<open>error option \<times> hci\<close>
  (\<open>None\<close> is Go's \<open>nil\<close>); a run-time panic (index or slice bound out of range) is the
  outer \<open>None\<close> of an \<open>option\<close>, so that a panic is never mistaken for a returned error.
  The constant \<open>debug\<close> is not part of the sources at hand; it is taken to be \<open>false\<close>,
  so the diagnostic prints are left out.
\<close>

type_synonym u8 = "8 word"
type_synonym u16 = "16 word"

datatype error =
    ErrHCITimeout
  | ErrHCIUnknownEvent
  | ErrHCIUnknown
  | ErrHCIInvalidPacket
  | ErrHCIHardware
  | ErrFragmented
  | ErrExternal nat

text \<open>
  \<open>ErrFragmented\<close> is the value of \<open>errors.New("fragmented packet")\<close>; \<open>ErrExternal\<close>
  stands for any error value that a collaborator of the engine hands back.
\<close>

record leAdvertisingReport =
  reported :: bool
  numReports :: u8
  adv_typ :: u8
  adv_peerBdaddrType :: u8
  adv_peerBdaddr :: "u8 list"
  eirLength :: u8
  eirData :: "u8 list"
  rssi :: u8

record leConnectData =
  connected :: bool
  disconnected :: bool
  status :: u8
  handle :: u16
  role :: u8
  peerBdaddrType :: u8
  peerBdaddr :: "u8 list"
  interval :: u16
  timeout :: u16

text \<open>
  Modelled from the spec: the transport collaborator (the interface \<open>hciTransport\<close> has no
  implementation in the sources). It is a buffered byte source and sink: \<open>rx\<close> are the
  bytes waiting to be read, \<open>tx\<close> the frames written so far, and \<open>rd_err\<close>, \<open>wr_err\<close> the
  error, if any, with which a read or a write fails.
\<close>

record transport =
  rx :: "u8 list"
  tx :: "u8 list list"
  rd_err :: "error option"
  wr_err :: "error option"

text \<open>
  A Go slice of the packet buffer \<open>h.buf\<close>: offset and length. Its capacity reaches to the
  end of the 256-byte array. The decoders are only ever called on such slices
  (\<open>h.buf[1:h.pos]\<close>), and \<open>h.cmdResponse\<close> is one, so the aliasing of the source is kept.
\<close>

record view =
  v_off :: nat
  v_len :: nat

text \<open>Calls made to the ATT and L2CAP collaborators, in the order they happen.\<close>

datatype call =
    AttHandleData u16 "u8 list"
  | L2capHandleData u16 "u8 list"
  | AttRemoveConnection u16
  | L2capRemoveConnection u16
  | AttAddConnection u16
  | L2capAddConnection u16 u8 u16 u16

text \<open>
  The answers of the fallible collaborator calls (ATT and L2CAP are not part of the
  sources): a parameter of the model.
\<close>

record collab =
  att_handleData :: "u16 \<Rightarrow> u8 list \<Rightarrow> error option"
  l2cap_handleData :: "u16 \<Rightarrow> u8 list \<Rightarrow> error option"
  l2cap_addConnection :: "u16 \<Rightarrow> u8 \<Rightarrow> u16 \<Rightarrow> u16 \<Rightarrow> error option"

text \<open>
  The struct \<open>hci\<close>. The field \<open>end\<close> is called \<open>endp\<close>. \<open>pos\<close> and \<open>endp\<close> are Go
  \<open>int\<close>s that the code never makes negative. \<open>calls\<close> and \<open>decoded\<close> are history
  variables that no function reads: the collaborator calls made, and the frames handed
  to the event decoder.
\<close>

record hci =
  transport :: transport
  buf :: "u8 list"
  pos :: nat
  endp :: nat
  writebuf :: "u8 list"
  cmdCompleteOpcode :: u16
  cmdCompleteStatus :: u8
  cmdResponse :: view
  scanning :: bool
  advData :: leAdvertisingReport
  connectData :: leConnectData
  maxPkt :: u16
  pendingPkt :: u16
  calls :: "call list"
  decoded :: "u8 list list"

type_synonym ret = "(error option \<times> hci) option"

section \<open>Go slices and byte order\<close>

definition vbytes :: "u8 list \<Rightarrow> view \<Rightarrow> u8 list" where
  "vbytes a v = take (v_len v) (drop (v_off v) a)"

text \<open>\<open>b[i]\<close>: panics unless \<open>i < len(b)\<close>.\<close>

definition at :: "u8 list \<Rightarrow> view \<Rightarrow> nat \<Rightarrow> u8 option" where
  "at a v i = (if i < v_len v then Some (a ! (v_off v + i)) else None)"

text \<open>\<open>b[k:]\<close>: panics unless \<open>k \<le> len(b)\<close>.\<close>

definition slice_from :: "view \<Rightarrow> nat \<Rightarrow> view option" where
  "slice_from v k =
     (if k \<le> v_len v then Some \<lparr>v_off = v_off v + k, v_len = v_len v - k\<rparr> else None)"

text \<open>\<open>b[lo:hi]\<close>: panics unless \<open>lo \<le> hi \<le> cap(b)\<close>; the capacity ends with the array.\<close>

definition slice :: "u8 list \<Rightarrow> view \<Rightarrow> nat \<Rightarrow> nat \<Rightarrow> view option" where
  "slice a v lo hi =
     (if lo \<le> hi \<and> v_off v + hi \<le> length a
      then Some \<lparr>v_off = v_off v + lo, v_len = hi - lo\<rparr> else None)"

definition le16 :: "u8 \<Rightarrow> u8 \<Rightarrow> u16" where
  "le16 b0 b1 = (ucast b0 :: u16) OR push_bit 8 (ucast b1 :: u16)"

text \<open>\<open>binary.LittleEndian.Uint16(b)\<close>: panics unless \<open>len(b) \<ge> 2\<close>.\<close>

definition Uint16 :: "u8 list \<Rightarrow> view \<Rightarrow> u16 option" where
  "Uint16 a v =
     (if 2 \<le> v_len v then Some (le16 (a ! v_off v) (a ! (v_off v + 1))) else None)"

text \<open>\<open>binary.LittleEndian.Uint16(b[k:])\<close>.\<close>

definition Uint16_at :: "u8 list \<Rightarrow> view \<Rightarrow> nat \<Rightarrow> u16 option" where
  "Uint16_at a v k = (case slice_from v k of None \<Rightarrow> None | Some w \<Rightarrow> Uint16 a w)"

text \<open>\<open>binary.LittleEndian.PutUint16\<close> writes these two bytes.\<close>

definition bytes16 :: "u16 \<Rightarrow> u8 list" where
  "bytes16 x = [ucast x, ucast (drop_bit 8 x)]"

text \<open>
  \<open>copy(dst, src)\<close> on the contents: the first \<open>min (len dst) (len src)\<close> elements of
  \<open>dst\<close> are replaced.
\<close>

definition copy_into :: "u8 list \<Rightarrow> u8 list \<Rightarrow> u8 list" where
  "copy_into dst src = take (length dst) src @ drop (length src) dst"

section \<open>Sending without waiting\<close>

definition hciCommandPkt :: u8 where "hciCommandPkt = 0x01"
definition hciACLDataPkt :: u8 where "hciACLDataPkt = 0x02"
definition hciSynchronousDataPkt :: u8 where "hciSynchronousDataPkt = 0x03"
definition hciEventPkt :: u8 where "hciEventPkt = 0x04"

definition ogfLECtrl :: u16 where "ogfLECtrl = 0x08"
definition ocfLESetAdvertiseEnable :: u16 where "ocfLESetAdvertiseEnable = 0x000a"
definition ocfLEParamRequestReply :: u16 where "ocfLEParamRequestReply = 0x0020"

text \<open>\<open>h.transport.Write(buf)\<close> through \<open>h.write\<close>.\<close>

definition hci_write :: "u8 list \<Rightarrow> hci \<Rightarrow> error option \<times> hci" where
  "hci_write frame h =
     (case wr_err (transport h) of
        Some e \<Rightarrow> (Some e, h)
      | None \<Rightarrow> (None, h\<lparr>transport := (transport h)\<lparr>tx := tx (transport h) @ [frame]\<rparr>\<rparr>))"

text \<open>
  The four assignments that fill \<open>h.writebuf\<close> with a command frame, common to
  \<open>sendCommandWithParams\<close> and \<open>sendWithoutResponse\<close>.
\<close>

definition fill_writebuf :: "u16 \<Rightarrow> u8 list \<Rightarrow> u8 list \<Rightarrow> u8 list" where
  "fill_writebuf opcode params wb =
     take 4 ([hciCommandPkt] @ bytes16 opcode @ [of_nat (length params)] @ drop 4 wb)
       @ copy_into (drop 4 wb) params"

definition sendWithoutResponse :: "u16 \<Rightarrow> u8 list \<Rightarrow> hci \<Rightarrow> ret" where
  "sendWithoutResponse opcode params h =
     (let wb = fill_writebuf opcode params (writebuf h);
          h1 = h\<lparr>writebuf := wb\<rparr>
      in if 4 + length params \<le> length wb
         then (case hci_write (take (4 + length params) wb) h1 of
                 (Some e, h2) \<Rightarrow> Some (Some e, h2)
               | (None, h2) \<Rightarrow>
                   Some (None, h2\<lparr>cmdCompleteOpcode := 0xffff, cmdCompleteStatus := 0xff\<rparr>))
         else None)"

definition leSetAdvertiseEnable :: "bool \<Rightarrow> hci \<Rightarrow> ret" where
  "leSetAdvertiseEnable enabled h =
     sendWithoutResponse (push_bit 10 ogfLECtrl OR ocfLESetAdvertiseEnable)
       [if enabled then 1 else 0] h"

definition clearAdvData :: "hci \<Rightarrow> hci" where
  "clearAdvData h =
     h\<lparr>advData := (advData h)\<lparr>reported := False, numReports := 0, adv_typ := 0,
          adv_peerBdaddrType := 0, adv_peerBdaddr := replicate 6 0, eirLength := 0,
          eirData := replicate 31 0, rssi := 0\<rparr>\<rparr>"

definition newHCI :: "transport \<Rightarrow> hci" where
  "newHCI t =
     \<lparr>transport = t, buf = replicate 256 0, pos = 0, endp = 0, writebuf = replicate 256 0,
      cmdCompleteOpcode = 0, cmdCompleteStatus = 0, cmdResponse = \<lparr>v_off = 0, v_len = 0\<rparr>,
      scanning = False,
      advData = \<lparr>reported = False, numReports = 0, adv_typ = 0, adv_peerBdaddrType = 0,
                 adv_peerBdaddr = replicate 6 0, eirLength = 0, eirData = replicate 31 0,
                 rssi = 0\<rparr>,
      connectData = \<lparr>connected = False, disconnected = False, status = 0, handle = 0,
                     role = 0, peerBdaddrType = 0, peerBdaddr = replicate 6 0,
                     interval = 0, timeout = 0\<rparr>,
      maxPkt = 0, pendingPkt = 0, calls = [], decoded = []\<rparr>"

section \<open>The event decoder\<close>

definition evtDisconnComplete :: u8 where "evtDisconnComplete = 0x05"
definition evtEncryptionChange :: u8 where "evtEncryptionChange = 0x08"
definition evtCmdComplete :: u8 where "evtCmdComplete = 0x0e"
definition evtCmdStatus :: u8 where "evtCmdStatus = 0x0f"
definition evtHardwareError :: u8 where "evtHardwareError = 0x10"
definition evtNumCompPkts :: u8 where "evtNumCompPkts = 0x13"
definition evtLEMetaEvent :: u8 where "evtLEMetaEvent = 0x3e"

definition leMetaEventConnComplete :: u8 where "leMetaEventConnComplete = 0x01"
definition leMetaEventAdvertisingReport :: u8 where "leMetaEventAdvertisingReport = 0x02"
definition leMetaEventConnectionUpdateComplete :: u8 where
  "leMetaEventConnectionUpdateComplete = 0x03"
definition leMetaEventLongTermKeyRequest :: u8 where "leMetaEventLongTermKeyRequest = 0x05"
definition leMetaEventRemoteConnParamReq :: u8 where "leMetaEventRemoteConnParamReq = 0x06"
definition leMetaEventDataLengthChange :: u8 where "leMetaEventDataLengthChange = 0x07"
definition leMetaEventReadLocalP256Complete :: u8 where
  "leMetaEventReadLocalP256Complete = 0x08"
definition leMetaEventGenerateDHKeyComplete :: u8 where
  "leMetaEventGenerateDHKeyComplete = 0x09"
definition leMetaEventEnhancedConnectionComplete :: u8 where
  "leMetaEventEnhancedConnectionComplete = 0x0A"

text \<open>Case \<open>evtDisconnComplete\<close>.\<close>

definition evt_DisconnComplete :: "view \<Rightarrow> hci \<Rightarrow> ret" where
  "evt_DisconnComplete v h = do {
     hnd \<leftarrow> Uint16_at (buf h) v 3;
     leSetAdvertiseEnable True
       (h\<lparr>calls := calls h @ [AttRemoveConnection hnd, L2capRemoveConnection hnd],
          connectData := (connectData h)\<lparr>disconnected := True, handle := hnd\<rparr>\<rparr>)
   }"

text \<open>
  Case \<open>evtCmdComplete\<close>. \<open>plen+2\<close> is a \<open>uint8\<close> sum; the response is the slice
  \<open>buf[1 : plen+2]\<close> of the frame, or \<open>buf[:0]\<close>.
\<close>

definition evt_CmdComplete :: "view \<Rightarrow> u8 \<Rightarrow> hci \<Rightarrow> ret" where
  "evt_CmdComplete v plen h = do {
     opcode \<leftarrow> Uint16_at (buf h) v 3;
     st \<leftarrow> at (buf h) v 5;
     resp \<leftarrow> (if plen > 0 then slice (buf h) v 1 (unat (plen + 2)) else slice (buf h) v 0 0);
     Some (None, h\<lparr>cmdCompleteOpcode := opcode, cmdCompleteStatus := st,
                    cmdResponse := resp\<rparr>)
   }"

text \<open>Case \<open>evtCmdStatus\<close>.\<close>

definition evt_CmdStatus :: "view \<Rightarrow> hci \<Rightarrow> ret" where
  "evt_CmdStatus v h = do {
     st \<leftarrow> at (buf h) v 2;
     opcode \<leftarrow> Uint16_at (buf h) v 4;
     resp \<leftarrow> slice (buf h) v 0 0;
     Some (None, h\<lparr>cmdCompleteStatus := st, cmdCompleteOpcode := opcode,
                    cmdResponse := resp\<rparr>)
   }"

text \<open>
  The loop \<open>for i := byte(0); i < c; i++ { pkts += Uint16(buf[5+i*4:]) }\<close>: the index
  \<open>5+i*4\<close> is a \<open>byte\<close> and wraps, and so does the \<open>uint16\<close> sum.
\<close>

function numCompPkts_loop :: "u8 list \<Rightarrow> view \<Rightarrow> u8 \<Rightarrow> u8 \<Rightarrow> u16 \<Rightarrow> u16 option" where
  "numCompPkts_loop a v c i pkts =
     (if i < c
      then (case Uint16_at a v (unat (5 + i * 4)) of
              None \<Rightarrow> None
            | Some x \<Rightarrow> numCompPkts_loop a v c (i + 1) (pkts + x))
      else Some pkts)"
  by pat_completeness auto
termination
proof (relation "measure (\<lambda>(a, v, c, i, pkts). unat c - unat i)")
  show "wf (measure (\<lambda>(a, v, c, i, pkts). unat c - unat i))"
    by simp
next
  fix a :: "u8 list" and v :: view and c i :: u8 and pkts x :: u16
  assume lt: "i < c"
  then have "unat i < unat c"
    by (simp add: word_less_nat_alt)
  moreover have "unat i < 255"
    using lt unsigned_less [of c, where 'a = nat] by (simp add: word_less_nat_alt)
  then have "unat (i + 1) = unat i + 1"
    by (simp add: unat_word_ariths)
  ultimately show "((a, v, c, i + 1, pkts + x), (a, v, c, i, pkts))
      \<in> measure (\<lambda>(a, v, c, i, pkts). unat c - unat i)"
    by simp
qed

declare numCompPkts_loop.simps [simp del]

text \<open>Case \<open>evtNumCompPkts\<close>.\<close>

definition evt_NumCompPkts :: "view \<Rightarrow> hci \<Rightarrow> ret" where
  "evt_NumCompPkts v h = do {
     c \<leftarrow> at (buf h) v 2;
     pkts \<leftarrow> numCompPkts_loop (buf h) v c 0 0;
     Some (None, h\<lparr>pendingPkt :=
       (if pkts > 0 \<and> pendingPkt h > pkts then pendingPkt h - pkts else 0)\<rparr>)
   }"

text \<open>
  Cases \<open>leMetaEventConnComplete\<close> and \<open>leMetaEventEnhancedConnectionComplete\<close>; \<open>sub\<close>
  is \<open>buf[2]\<close>, one of the two.
\<close>

definition le_ConnComplete :: "collab \<Rightarrow> view \<Rightarrow> u8 \<Rightarrow> hci \<Rightarrow> ret" where
  "le_ConnComplete c v sub h = do {
     st \<leftarrow> at (buf h) v 3;
     hnd \<leftarrow> Uint16_at (buf h) v 4;
     rl \<leftarrow> at (buf h) v 6;
     pbt \<leftarrow> at (buf h) v 7;
     src \<leftarrow> slice_from v 8;
     iv \<leftarrow> Uint16_at (buf h) v (if sub = leMetaEventConnComplete then 14 else 26);
     tmo \<leftarrow> Uint16_at (buf h) v (if sub = leMetaEventConnComplete then 18 else 30);
     let h1 = h\<lparr>connectData := (connectData h)\<lparr>connected := True, status := st,
                   handle := hnd, role := rl, peerBdaddrType := pbt,
                   peerBdaddr := copy_into (peerBdaddr (connectData h)) (vbytes (buf h) src),
                   interval := iv, timeout := tmo\<rparr>,
                 calls := calls h @ [AttAddConnection hnd, L2capAddConnection hnd rl iv tmo]\<rparr>;
     case l2cap_addConnection c hnd rl iv tmo of
       Some e \<Rightarrow> Some (Some e, h1)
     | None \<Rightarrow> leSetAdvertiseEnable False h1
   }"

text \<open>
  Case \<open>leMetaEventAdvertisingReport\<close>. The sums \<open>13+eirLength+1\<close> and \<open>13+eirLength\<close>
  are \<open>uint8\<close> sums; \<open>rssi\<close> keeps the bits of the \<open>int8\<close>.
\<close>

definition le_AdvertisingReport :: "view \<Rightarrow> hci \<Rightarrow> ret" where
  "le_AdvertisingReport v h = do {
     nr \<leftarrow> at (buf h) v 3;
     ty \<leftarrow> at (buf h) v 4;
     pbt \<leftarrow> at (buf h) v 5;
     src \<leftarrow> slice_from v 6;
     eir \<leftarrow> at (buf h) v 12;
     let ad = (advData h)\<lparr>reported := True, numReports := nr, adv_typ := ty,
                adv_peerBdaddrType := pbt,
                adv_peerBdaddr := copy_into (adv_peerBdaddr (advData h)) (vbytes (buf h) src),
                eirLength := eir, rssi := 0\<rparr>;
     if unat (13 + eir + 1) > v_len v \<or> eir > 31
     then Some (Some ErrHCIInvalidPacket, h\<lparr>advData := ad\<rparr>)
     else do {
       dst \<leftarrow> (if unat eir \<le> length (eirData ad) then Some (take (unat eir) (eirData ad))
               else None);
       sv \<leftarrow> slice (buf h) v 13 (unat (13 + eir));
       let ad1 = ad\<lparr>eirData := copy_into dst (vbytes (buf h) sv) @ drop (unat eir) (eirData ad)\<rparr>;
       if nr = 0x01
       then do {
         r \<leftarrow> at (buf h) v (unat (13 + eir));
         Some (None, h\<lparr>advData := ad1\<lparr>rssi := r\<rparr>\<rparr>)
       }
       else Some (None, h\<lparr>advData := ad1\<rparr>)
     }
   }"

text \<open>Case \<open>leMetaEventRemoteConnParamReq\<close>.\<close>

definition le_RemoteConnParamReq :: "view \<Rightarrow> hci \<Rightarrow> ret" where
  "le_RemoteConnParamReq v h = do {
     connectionHandle \<leftarrow> Uint16_at (buf h) v 3;
     intervalMin \<leftarrow> Uint16_at (buf h) v 5;
     intervalMax \<leftarrow> Uint16_at (buf h) v 7;
     latency \<leftarrow> Uint16_at (buf h) v 9;
     timeOut \<leftarrow> Uint16_at (buf h) v 11;
     sendWithoutResponse (push_bit 10 ogfLECtrl OR ocfLEParamRequestReply)
       (bytes16 connectionHandle @ bytes16 intervalMin @ bytes16 intervalMax
          @ bytes16 latency @ bytes16 timeOut @ bytes16 0x000F @ bytes16 0x0FFF) h
   }"

text \<open>The inner \<open>switch buf[2]\<close> of the case \<open>evtLEMetaEvent\<close>.\<close>

definition le_MetaEvent :: "collab \<Rightarrow> view \<Rightarrow> hci \<Rightarrow> ret" where
  "le_MetaEvent c v h = do {
     sub \<leftarrow> at (buf h) v 2;
     if sub = leMetaEventConnComplete \<or> sub = leMetaEventEnhancedConnectionComplete
       then le_ConnComplete c v sub h
     else if sub = leMetaEventAdvertisingReport then le_AdvertisingReport v h
     else if sub = leMetaEventLongTermKeyRequest then Some (None, h)
     else if sub = leMetaEventRemoteConnParamReq then le_RemoteConnParamReq v h
     else if sub = leMetaEventConnectionUpdateComplete then Some (None, h)
     else if sub = leMetaEventReadLocalP256Complete then Some (None, h)
     else if sub = leMetaEventGenerateDHKeyComplete then Some (None, h)
     else if sub = leMetaEventDataLengthChange then Some (None, h)
     else Some (Some ErrHCIUnknownEvent, clearAdvData h)
   }"

text \<open>
  \<open>handleEventData(buf)\<close>, with \<open>buf\<close> the slice \<open>v\<close> of the packet buffer. The outer
  \<open>switch evt\<close> has no default case: any other event code leaves the switch and
  returns \<open>nil\<close>.
\<close>

definition handleEventData :: "collab \<Rightarrow> view \<Rightarrow> hci \<Rightarrow> ret" where
  "handleEventData c v h = do {
     evt \<leftarrow> at (buf h) v 0;
     plen \<leftarrow> at (buf h) v 1;
     if evt = evtDisconnComplete then evt_DisconnComplete v h
     else if evt = evtEncryptionChange then Some (None, h)
     else if evt = evtCmdComplete then evt_CmdComplete v plen h
     else if evt = evtCmdStatus then evt_CmdStatus v h
     else if evt = evtNumCompPkts then evt_NumCompPkts v h
     else if evt = evtLEMetaEvent then le_MetaEvent c v h
     else if evt = evtHardwareError then Some (Some ErrHCIUnknownEvent, h)
     else Some (None, h)
   }"

section \<open>The ACL demultiplexer\<close>

definition attCID :: u16 where "attCID = 0x0004"
definition signalingCID :: u16 where "signalingCID = 0x0005"

text \<open>
  \<open>handleACLData(buf)\<close>. The header arithmetic is \<open>uint16\<close>: \<open>dlen-4\<close> and \<open>len+8\<close>
  wrap. Both branches on \<open>aclFlags\<close> make the same call.
\<close>

definition handleACLData :: "collab \<Rightarrow> view \<Rightarrow> hci \<Rightarrow> ret" where
  "handleACLData col v h = do {
     hnd \<leftarrow> Uint16_at (buf h) v 0;
     dlen \<leftarrow> Uint16_at (buf h) v 2;
     ln \<leftarrow> Uint16_at (buf h) v 4;
     cid \<leftarrow> Uint16_at (buf h) v 6;
     if dlen - 4 \<noteq> ln then Some (Some ErrFragmented, h)
     else if cid = attCID then do {
       pl \<leftarrow> slice (buf h) v 8 (unat (ln + 8));
       Some (att_handleData col (hnd AND 0x0fff) (vbytes (buf h) pl),
             h\<lparr>calls := calls h @ [AttHandleData (hnd AND 0x0fff) (vbytes (buf h) pl)]\<rparr>)
     }
     else if cid = signalingCID then do {
       pl \<leftarrow> slice (buf h) v 8 (unat (ln + 8));
       Some (l2cap_handleData col (hnd AND 0x0fff) (vbytes (buf h) pl),
             h\<lparr>calls := calls h @ [L2capHandleData (hnd AND 0x0fff) (vbytes (buf h) pl)]\<rparr>)
     }
     else Some (None, h)
   }"

section \<open>The framer\<close>

definition hciACLLenPos :: nat where "hciACLLenPos = 4"
definition hciEvtLenPos :: nat where "hciEvtLenPos = 2"

text \<open>The slice \<open>h.buf\<close> itself.\<close>

definition whole :: "hci \<Rightarrow> view" where
  "whole h = \<lparr>v_off = 0, v_len = length (buf h)\<rparr>"

text \<open>
  \<open>processPacket\<close>: the flag \<open>done\<close>, the error and the engine. A frame handed to the
  event decoder is also put on record in \<open>decoded\<close>.
\<close>

definition processPacket :: "collab \<Rightarrow> hci \<Rightarrow> (bool \<times> error option \<times> hci) option" where
  "processPacket col h = do {
     tag \<leftarrow> at (buf h) (whole h) 0;
     if tag = hciACLDataPkt then
       (if pos h > hciACLLenPos then do {
          lv \<leftarrow> slice (buf h) (whole h) 3 5;
          w \<leftarrow> Uint16 (buf h) lv;
          if endp h < hciACLLenPos + unat w then Some (False, None, h)
          else if pos h \<ge> hciACLLenPos + unat w then do {
            v \<leftarrow> slice (buf h) (whole h) 1 (hciACLLenPos + unat w + 1);
            r \<leftarrow> handleACLData col v (h\<lparr>pos := hciACLLenPos + unat w + 1\<rparr>);
            Some (True, fst r, snd r)
          }
          else Some (False, None, h)
        }
        else Some (False, None, h))
     else if tag = hciEventPkt then
       (if pos h > hciEvtLenPos then do {
          b \<leftarrow> at (buf h) (whole h) hciEvtLenPos;
          if endp h < hciEvtLenPos + unat b then Some (False, None, h)
          else if pos h \<ge> hciEvtLenPos + unat b then do {
            v \<leftarrow> slice (buf h) (whole h) 1 (hciEvtLenPos + unat b + 1);
            r \<leftarrow> handleEventData col v
                  (h\<lparr>pos := hciEvtLenPos + unat b + 1,
                     decoded := decoded h @ [vbytes (buf h) v]\<rparr>);
            Some (True, fst r, snd r)
          }
          else Some (False, None, h)
        }
        else Some (False, None, h))
     else if tag = hciSynchronousDataPkt then
       (if pos h > 3 then do {
          b \<leftarrow> at (buf h) (whole h) 3;
          Some (True, None, h\<lparr>pos := 1 + 3 + unat b\<rparr>)
        }
        else Some (False, None, h))
     else Some (True, Some ErrHCIUnknown, h)
   }"

text \<open>
  The read at the head of the loop body of \<open>poll\<close>:
  \<open>aligned := available + (4-(available%4))%4\<close> and
  \<open>h.transport.Read(h.buf[h.end : h.end+aligned])\<close>. The slice expression panics when
  \<open>h.end+aligned\<close> exceeds the capacity of \<open>h.buf\<close>. The transport hands over what it
  has, at most \<open>aligned\<close> bytes.
\<close>

definition aligned :: "nat \<Rightarrow> nat" where
  "aligned available = available + (4 - available mod 4) mod 4"

definition poll_read :: "hci \<Rightarrow> ret" where
  "poll_read h =
     (let available = length (rx (transport h)) in
      if available > 0
      then (if endp h + aligned available \<le> length (buf h)
            then (case rd_err (transport h) of
                    Some e \<Rightarrow> Some (Some e, h)
                  | None \<Rightarrow>
                      let n = min (aligned available) available in
                      Some (None,
                        h\<lparr>buf := take (endp h) (buf h) @ take n (rx (transport h))
                                  @ drop (endp h + n) (buf h),
                          endp := endp h + n,
                          transport := (transport h)\<lparr>rx := drop n (rx (transport h))\<rparr>\<rparr>))
            else None)
      else Some (None, h))"

text \<open>
  One pass through the loop body of \<open>poll\<close>: \<open>Inl\<close> when \<open>poll\<close> returns, \<open>Inr\<close> when
  the loop goes on. \<open>time.Sleep\<close> changes nothing in the engine; the bracket
  \<open>startRead\<close>/\<open>endRead\<close> belongs to the transport.
\<close>

definition poll_iter :: "collab \<Rightarrow> hci \<Rightarrow> ((error option \<times> hci) + hci) option" where
  "poll_iter col h =
     (case poll_read h of
        None \<Rightarrow> None
      | Some (Some e, h0) \<Rightarrow> Some (Inl (Some e, h0))
      | Some (None, h0) \<Rightarrow>
          (case processPacket col (h0\<lparr>pos := pos h0 + 1\<rparr>) of
             None \<Rightarrow> None
           | Some (done, err, h1) \<Rightarrow>
               if err = Some ErrHCIInvalidPacket \<or> err = Some ErrHCIUnknown
                  \<or> err = Some ErrHCIUnknownEvent
               then Some (Inr (h1\<lparr>pos := 0, endp := 0\<rparr>))
               else if err \<noteq> None then Some (Inl (err, h1\<lparr>pos := 0, endp := 0\<rparr>))
               else if done
               then (if endp h1 > pos h1
                     then Some (Inl (None,
                            h1\<lparr>buf := copy_into (buf h1)
                                         (take (endp h1 - pos h1) (drop (pos h1) (buf h1))),
                               endp := endp h1 - pos h1, pos := 0\<rparr>))
                     else Some (Inl (None, h1\<lparr>endp := 0, pos := 0\<rparr>)))
               else if pos h1 > endp h1 then Some (Inr (h1\<lparr>pos := 0, endp := 0\<rparr>))
               else Some (Inr h1)))"

text \<open>\<open>poll\<close>: \<open>for h.transport.Buffered() > 0 || h.end > h.pos { ... }\<close>.\<close>

function poll :: "collab \<Rightarrow> hci \<Rightarrow> ret" where
  "poll col h =
     (if length (rx (transport h)) > 0 \<or> endp h > pos h
      then (case poll_iter col h of
              None \<Rightarrow> None
            | Some (Inl r) \<Rightarrow> Some r
            | Some (Inr h') \<Rightarrow> poll col h')
      else Some (None, h))"
  by pat_completeness auto

section \<open>The blocking command call\<close>

text \<open>
  The surroundings of a blocking call are an input of the model: the reading \<open>start\<close>
  of \<open>time.Now().UnixNano()\<close> before the loop, and for each pass of the wait loop the
  bytes that have reached the transport before \<open>poll\<close> is called and the clock reading
  after it. Readings are nanoseconds; \<open>int64\<close> does not overflow on them. Go's \<open>/\<close>
  truncates towards zero.
\<close>

definition go_quot :: "int \<Rightarrow> int \<Rightarrow> int" where
  "go_quot a b = (if 0 \<le> a then a div b else - ((- a) div b))"

definition second :: int where "second = 1000000000"

definition arrive :: "u8 list \<Rightarrow> hci \<Rightarrow> hci" where
  "arrive bs h = h\<lparr>transport := (transport h)\<lparr>rx := rx (transport h) @ bs\<rparr>\<rparr>"

text \<open>
  What a call has come to when the given surroundings are used up: it panicked, it has
  returned (error and engine), or it is still in its loop.
\<close>

datatype outcome = Panicked | Returned "error option" hci | Waiting hci

text \<open>
  The loop \<open>for h.cmdCompleteOpcode != opcode { poll; timeout check }\<close> of
  \<open>sendCommandWithParams\<close>, and the \<open>return nil\<close> after it.
\<close>

fun wait_loop :: "collab \<Rightarrow> u16 \<Rightarrow> int \<Rightarrow> (u8 list \<times> int) list \<Rightarrow> hci \<Rightarrow> outcome" where
  "wait_loop col opcode start [] h =
     (if cmdCompleteOpcode h \<noteq> opcode then Waiting h else Returned None h)"
| "wait_loop col opcode start ((bs, now) # steps) h =
     (if cmdCompleteOpcode h \<noteq> opcode
      then (case poll col (arrive bs h) of
              None \<Rightarrow> Panicked
            | Some (Some e, h1) \<Rightarrow> Returned (Some e) h1
            | Some (None, h1) \<Rightarrow>
                if go_quot (now - start) second > 3 then Returned (Some ErrHCITimeout) h1
                else wait_loop col opcode start steps h1)
      else Returned None h)"

definition sendCommandWithParams ::
  "collab \<Rightarrow> u16 \<Rightarrow> u8 list \<Rightarrow> int \<Rightarrow> (u8 list \<times> int) list \<Rightarrow> hci \<Rightarrow> outcome" where
  "sendCommandWithParams col opcode params start steps h =
     (let wb = fill_writebuf opcode params (writebuf h);
          h1 = h\<lparr>writebuf := wb\<rparr>
      in if 4 + length params \<le> length wb
         then (case hci_write (take (4 + length params) wb) h1 of
                 (Some e, h2) \<Rightarrow> Returned (Some e) h2
               | (None, h2) \<Rightarrow>
                   wait_loop col opcode start steps
                     (h2\<lparr>cmdCompleteOpcode := 0xffff, cmdCompleteStatus := 0xff\<rparr>))
         else Panicked)"



section \<open>Reference notions and sample inputs\<close>

text \<open>
  The \<open>j\<close>-th completed-packets count of a NumberOfCompletedPackets frame (the event
  code is byte 0 of the frame, the number of handles byte 2, and each entry is a handle
  followed by its count), and the sum of the first \<open>n\<close> counts, as a \<open>uint16\<close>.
\<close>

definition entry :: "u8 list \<Rightarrow> view \<Rightarrow> nat \<Rightarrow> u16" where
  "entry a v j = le16 (a ! (v_off v + 5 + 4 * j)) (a ! (v_off v + 6 + 4 * j))"

definition counts_sum :: "u8 list \<Rightarrow> view \<Rightarrow> nat \<Rightarrow> u16" where
  "counts_sum a v n = sum_list (map (entry a v) [0..<n])"

text \<open>The credit as the specification words it: \<open>max (old - sum) 0\<close>.\<close>

definition credit_floor :: "u16 \<Rightarrow> u16 \<Rightarrow> u16" where
  "credit_floor old s = (if s \<le> old then old - s else 0)"

text \<open>Collaborators that accept every call, and a transport with nothing to read.\<close>

definition idle_collab :: collab where
  "idle_collab = \<lparr>att_handleData = (\<lambda>_ _. None), l2cap_handleData = (\<lambda>_ _. None),
     l2cap_addConnection = (\<lambda>_ _ _ _. None)\<rparr>"

definition idle_transport :: transport where
  "idle_transport = \<lparr>rx = [], tx = [], rd_err = None, wr_err = None\<rparr>"

text \<open>
  An engine whose packet buffer starts with the bytes \<open>f\<close> (packet-type tag first), and
  the slice \<open>h.buf[1:len f]\<close> that the framer hands to a decoder.
\<close>

definition holding :: "u8 list \<Rightarrow> hci \<Rightarrow> hci" where
  "holding f h = h\<lparr>buf := copy_into (buf h) f\<rparr>"

definition frame_view :: "u8 list \<Rightarrow> view" where
  "frame_view f = \<lparr>v_off = 1, v_len = length f - 1\<rparr>"

text \<open>NumberOfCompletedPackets for one handle, with count 2 and with count 0.\<close>

definition ncp_two :: "u8 list" where
  "ncp_two = [0x04, 0x13, 0x05, 0x01, 0x40, 0x00, 0x02, 0x00]"

definition ncp_zero :: "u8 list" where
  "ncp_zero = [0x04, 0x13, 0x05, 0x01, 0x40, 0x00, 0x00, 0x00]"


text \<open>
  The event codes and LE sub-event codes that have a case in the decoder's two
  switches.
\<close>

definition recognised_evt :: "u8 \<Rightarrow> bool" where
  "recognised_evt e \<longleftrightarrow> e \<in> {evtDisconnComplete, evtEncryptionChange, evtCmdComplete,
     evtCmdStatus, evtNumCompPkts, evtLEMetaEvent, evtHardwareError}"

definition recognised_sub :: "u8 \<Rightarrow> bool" where
  "recognised_sub s \<longleftrightarrow> s \<in> {leMetaEventConnComplete, leMetaEventEnhancedConnectionComplete,
     leMetaEventAdvertisingReport, leMetaEventLongTermKeyRequest,
     leMetaEventRemoteConnParamReq, leMetaEventConnectionUpdateComplete,
     leMetaEventReadLocalP256Complete, leMetaEventGenerateDHKeyComplete,
     leMetaEventDataLengthChange}"

text \<open>An event frame with the event code \<open>0xFF\<close>, which no case of the decoder names.\<close>

definition evt_ff :: "u8 list" where
  "evt_ff = [0x04, 0xff, 0x01, 0x00]"

text \<open>An LE meta-event with the sub-event code \<open>0x0B\<close> (direct advertising report).\<close>

definition le_0b :: "u8 list" where
  "le_0b = [0x04, 0x3e, 0x02, 0x0b, 0x00]"



text \<open>What the decoders leave alone: the transport's input, the cursors, the history.\<close>

definition untouched :: "hci \<Rightarrow> hci \<Rightarrow> bool" where
  "untouched h h' \<longleftrightarrow> rx (transport h') = rx (transport h) \<and> pos h' = pos h
     \<and> endp h' = endp h \<and> decoded h' = decoded h \<and> buf h' = buf h"

text \<open>
  The engine as \<open>sendCommandWithParams\<close> and \<open>sendWithoutResponse\<close> leave it once the
  frame is written and the completion slot is set to the sentinel.
\<close>

definition sent :: "u16 \<Rightarrow> u8 list \<Rightarrow> hci \<Rightarrow> hci" where
  "sent opcode params h =
     h\<lparr>writebuf := fill_writebuf opcode params (writebuf h),
       transport := (transport h)\<lparr>tx := tx (transport h)
          @ [take (4 + length params) (fill_writebuf opcode params (writebuf h))]\<rparr>,
       cmdCompleteOpcode := 0xffff, cmdCompleteStatus := 0xff\<rparr>"


text \<open>
  The example of the specification: the event bytes \<open>04 0E 04 01 03 0C 00\<close>, a
  CommandComplete for the Reset opcode \<open>0x0C03\<close> with status 0.
\<close>

definition reset_complete :: "u8 list" where
  "reset_complete = [0x04, 0x0E, 0x04, 0x01, 0x03, 0x0C, 0x00]"


text \<open>
  The first 254 bytes of an ACL frame whose declared total length is 251, so that the
  whole frame (tag, handle, length and 251 bytes) is 256 bytes long and fits the packet
  buffer exactly.
\<close>

definition acl_head :: "u8 list" where
  "acl_head = [0x02, 0x01, 0x00, 0xFB, 0x00] @ replicate 249 0"

section \<open>Reading the buffer\<close>

lemma Uint16_at_Some:
  "k + 2 \<le> v_len v \<Longrightarrow>
   Uint16_at a v k = Some (le16 (a ! (v_off v + k)) (a ! (v_off v + k + 1)))"
  by (simp add: Uint16_at_def slice_from_def Uint16_def)

lemma Uint16_at_None: "v_len v < k + 2 \<Longrightarrow> Uint16_at a v k = None"
  by (auto simp add: Uint16_at_def slice_from_def Uint16_def)

lemma at_Some: "i < v_len v \<Longrightarrow> at a v i = Some (a ! (v_off v + i))"
  by (simp add: at_def)

lemma at_None: "v_len v \<le> i \<Longrightarrow> at a v i = None"
  by (simp add: at_def)

section \<open>NumberOfCompletedPackets\<close>

lemma unat_idx: "unat (i::u8) \<le> 62 \<Longrightarrow> unat (5 + i * 4) = 5 + 4 * unat i"
  by (simp add: unat_word_ariths)

lemma unat_succ: "unat (i::u8) \<le> 62 \<Longrightarrow> unat (i + 1) = unat i + 1"
  by (simp add: unat_word_ariths)

text \<open>The loop adds the counts of the entries \<open>i, \<dots>, c - 1\<close> to its accumulator.\<close>

lemma numCompPkts_loop_sum:
  "unat i \<le> unat c \<Longrightarrow> 3 + 4 * unat c \<le> v_len v \<Longrightarrow> v_len v \<le> 255 \<Longrightarrow>
   numCompPkts_loop a v c i pkts = Some (pkts + sum_list (map (entry a v) [unat i..<unat c]))"
proof (induction a v c i pkts rule: numCompPkts_loop.induct)
  case (1 a v c i pkts)
  show ?case
  proof (cases "i < c")
    case True
    then have lt: "unat i < unat c" by (simp add: word_less_nat_alt)
    with "1.prems" have i62: "unat i \<le> 62" by arith
    have idx: "unat (5 + i * 4) = 5 + 4 * unat i" using i62 by (rule unat_idx)
    have suc: "unat (i + 1) = unat i + 1" using i62 by (rule unat_succ)
    have inr: "5 + 4 * unat i + 2 \<le> v_len v" using lt "1.prems" by arith
    have rd: "Uint16_at a v (unat (5 + i * 4)) = Some (entry a v (unat i))"
      using Uint16_at_Some [OF inr, of a] by (simp add: idx entry_def ac_simps)
    have "numCompPkts_loop a v c (i + 1) (pkts + entry a v (unat i))
        = Some (pkts + entry a v (unat i) + sum_list (map (entry a v) [unat (i + 1)..<unat c]))"
      using "1.IH" [OF True rd] "1.prems" lt suc by simp
    moreover have "sum_list (map (entry a v) [unat i..<unat c])
        = entry a v (unat i) + sum_list (map (entry a v) [unat (i + 1)..<unat c])"
      using lt suc by (simp add: upt_conv_Cons)
    ultimately show ?thesis
      using True rd by (subst numCompPkts_loop.simps) (simp add: add.assoc)
  next
    case False
    then have "unat c \<le> unat i" by (simp add: word_less_nat_alt not_less)
    then show ?thesis using False by (subst numCompPkts_loop.simps) simp
  qed
qed

text \<open>
  C6, as the code has it. The claim gives the new credit as \<open>max (old - sum) 0\<close>, a sum
  of zero leaving the credit unchanged. The code guards the subtraction with
  \<open>pkts > 0 && h.pendingPkt > pkts\<close>: for every NumberOfCompletedPackets frame that
  holds its \<open>c\<close> entries, decoding succeeds and the new credit is \<open>old - sum\<close> when
  \<open>0 < sum < old\<close>, and \<open>0\<close> in every other case, a sum of zero included. The sum is the
  \<open>uint16\<close> sum of the counts of all \<open>c\<close> entries. The credit is an unsigned 16-bit
  value, so it is never negative.
\<close>

theorem numCompPkts_credit:
  assumes "at (buf h) v 0 = Some evtNumCompPkts" and "at (buf h) v 2 = Some c"
    and "3 + 4 * unat c \<le> v_len v" and "v_len v \<le> 255"
  shows "handleEventData col v h =
    Some (None, h\<lparr>pendingPkt :=
      (if 0 < counts_sum (buf h) v (unat c) \<and> counts_sum (buf h) v (unat c) < pendingPkt h
       then pendingPkt h - counts_sum (buf h) v (unat c) else 0)\<rparr>)"
proof -
  have l1: "1 < v_len v" using assms(3) by arith
  have lp: "numCompPkts_loop (buf h) v c 0 0 = Some (counts_sum (buf h) v (unat c))"
    using numCompPkts_loop_sum [of 0 c v "buf h" 0] assms(3,4) by (simp add: counts_sum_def)
  have ev: "evtNumCompPkts \<noteq> evtDisconnComplete" "evtNumCompPkts \<noteq> evtEncryptionChange"
    "evtNumCompPkts \<noteq> evtCmdComplete" "evtNumCompPkts \<noteq> evtCmdStatus"
    by (simp_all add: evtNumCompPkts_def evtDisconnComplete_def evtEncryptionChange_def
        evtCmdComplete_def evtCmdStatus_def)
  have a1: "at (buf h) v 1 = Some (buf h ! (v_off v + 1))" using l1 by (rule at_Some)
  show ?thesis
    using assms(1,2) a1 by (simp add: handleEventData_def ev evt_NumCompPkts_def lp)
qed

text \<open>
  Witness for C6: a credit of 5 and one entry with count 2 leave a credit of 3.
\<close>

theorem numCompPkts_credit_witness:
  "handleEventData idle_collab (frame_view ncp_two)
     (holding ncp_two ((newHCI idle_transport)\<lparr>pendingPkt := 5\<rparr>))
   = Some (None, holding ncp_two ((newHCI idle_transport)\<lparr>pendingPkt := 3\<rparr>))"
  using numCompPkts_credit [of "holding ncp_two ((newHCI idle_transport)\<lparr>pendingPkt := 5\<rparr>)"
      "frame_view ncp_two" 1 idle_collab]
  by (simp add: holding_def frame_view_def ncp_two_def newHCI_def copy_into_def at_def
      evtNumCompPkts_def counts_sum_def entry_def le16_def)

text \<open>
  Counterexample to C6 as stated: with a credit of 5, an event whose counts sum to zero
  sets the credit to 0, where \<open>max (old - sum) 0\<close> is 5.
\<close>

theorem numCompPkts_zero_sum_counterexample:
  "map_option (pendingPkt \<circ> snd)
     (handleEventData idle_collab (frame_view ncp_zero)
        (holding ncp_zero ((newHCI idle_transport)\<lparr>pendingPkt := 5\<rparr>))) = Some 0
   \<and> counts_sum (buf (holding ncp_zero (newHCI idle_transport))) (frame_view ncp_zero) 1 = 0
   \<and> credit_floor 5 0 = 5"
  by code_simp

section \<open>LE Advertising Report\<close>

lemmas evt_defs = evtDisconnComplete_def evtEncryptionChange_def evtCmdComplete_def
  evtCmdStatus_def evtHardwareError_def evtNumCompPkts_def evtLEMetaEvent_def

lemmas le_defs = leMetaEventConnComplete_def leMetaEventAdvertisingReport_def
  leMetaEventConnectionUpdateComplete_def leMetaEventLongTermKeyRequest_def
  leMetaEventRemoteConnParamReq_def leMetaEventDataLengthChange_def
  leMetaEventReadLocalP256Complete_def leMetaEventGenerateDHKeyComplete_def
  leMetaEventEnhancedConnectionComplete_def





section \<open>Which events raise UnknownEvent\<close>

lemma sendWithoutResponse_error:
  "sendWithoutResponse opc ps h = Some (Some e, h') \<Longrightarrow> wr_err (transport h) = Some e"
  by (auto simp: sendWithoutResponse_def hci_write_def Let_def split: if_splits option.splits)

lemma leSetAdvertiseEnable_error:
  "leSetAdvertiseEnable b h = Some (Some e, h') \<Longrightarrow> wr_err (transport h) = Some e"
  unfolding leSetAdvertiseEnable_def by (rule sendWithoutResponse_error)

lemma evt_DisconnComplete_error:
  "evt_DisconnComplete v h = Some (Some e, h') \<Longrightarrow> wr_err (transport h) = Some e"
  by (auto simp: evt_DisconnComplete_def dest!: leSetAdvertiseEnable_error split: Option.bind_splits)

lemma evt_CmdComplete_error: "evt_CmdComplete v p h = Some (e, h') \<Longrightarrow> e = None"
  by (auto simp: evt_CmdComplete_def split: Option.bind_splits if_splits)

lemma evt_CmdStatus_error: "evt_CmdStatus v h = Some (e, h') \<Longrightarrow> e = None"
  by (auto simp: evt_CmdStatus_def split: Option.bind_splits)

lemma evt_NumCompPkts_error: "evt_NumCompPkts v h = Some (e, h') \<Longrightarrow> e = None"
  by (auto simp: evt_NumCompPkts_def split: Option.bind_splits)

lemma le_ConnComplete_error:
  "le_ConnComplete col v s h = Some (Some e, h') \<Longrightarrow>
   wr_err (transport h) = Some e \<or> (\<exists>a b c d. l2cap_addConnection col a b c d = Some e)"
proof -
  assume a: "le_ConnComplete col v s h = Some (Some e, h')"
  then obtain st hnd rl pbt src iv tmo h1 where
    r: "(case l2cap_addConnection col hnd rl iv tmo of
          Some e \<Rightarrow> Some (Some e, h1) | None \<Rightarrow> leSetAdvertiseEnable False h1) = Some (Some e, h')"
    and t: "transport h1 = transport h"
    by (auto simp: le_ConnComplete_def Let_def bind_eq_Some_conv)
  show ?thesis
  proof (cases "l2cap_addConnection col hnd rl iv tmo")
    case None
    with r have "leSetAdvertiseEnable False h1 = Some (Some e, h')" by simp
    then show ?thesis using t by (auto dest: leSetAdvertiseEnable_error)
  next
    case (Some x)
    with r show ?thesis by auto
  qed
qed

lemma le_AdvertisingReport_error:
  "le_AdvertisingReport v h = Some (Some e, h') \<Longrightarrow> e = ErrHCIInvalidPacket"
  by (auto simp: le_AdvertisingReport_def Let_def bind_eq_Some_conv split: if_splits)

lemma le_RemoteConnParamReq_error:
  "le_RemoteConnParamReq v h = Some (Some e, h') \<Longrightarrow> wr_err (transport h) = Some e"
  by (auto simp: le_RemoteConnParamReq_def bind_eq_Some_conv dest: sendWithoutResponse_error)

lemma le_MetaEvent_unknown:
  assumes w: "wr_err (transport h) \<noteq> Some ErrHCIUnknownEvent"
    and l: "\<And>a b c d. l2cap_addConnection col a b c d \<noteq> Some ErrHCIUnknownEvent"
  shows "le_MetaEvent col v h = Some (Some ErrHCIUnknownEvent, h') \<longleftrightarrow>
    3 \<le> v_len v \<and> \<not> recognised_sub (buf h ! (v_off v + 2)) \<and> h' = clearAdvData h"
proof (cases "3 \<le> v_len v")
  case False
  then show ?thesis by (simp add: le_MetaEvent_def at_def)
next
  case True
  define s where "s = buf h ! (v_off v + 2)"
  have a: "at (buf h) v 2 = Some s" using True by (simp add: at_def s_def)
  consider (conn) "s = leMetaEventConnComplete \<or> s = leMetaEventEnhancedConnectionComplete"
    | (adv) "s = leMetaEventAdvertisingReport"
    | (rem) "s = leMetaEventRemoteConnParamReq"
    | (quiet) "s = leMetaEventLongTermKeyRequest \<or> s = leMetaEventConnectionUpdateComplete
        \<or> s = leMetaEventReadLocalP256Complete \<or> s = leMetaEventGenerateDHKeyComplete
        \<or> s = leMetaEventDataLengthChange"
    | (unk) "\<not> recognised_sub s"
    unfolding recognised_sub_def by blast
  then show ?thesis
  proof cases
    case conn
    then have "le_MetaEvent col v h = le_ConnComplete col v s h"
      by (simp add: le_MetaEvent_def a)
    moreover have "recognised_sub s" using conn by (auto simp: recognised_sub_def)
    ultimately show ?thesis
      using le_ConnComplete_error [of col v s h ErrHCIUnknownEvent h'] w l
      by (auto simp: s_def)
  next
    case adv
    then have "le_MetaEvent col v h = le_AdvertisingReport v h"
      by (simp add: le_MetaEvent_def a le_defs)
    moreover have "recognised_sub s" using adv by (auto simp: recognised_sub_def)
    ultimately show ?thesis
      using le_AdvertisingReport_error [of v h ErrHCIUnknownEvent h']
      by (auto simp: s_def)
  next
    case rem
    then have "le_MetaEvent col v h = le_RemoteConnParamReq v h"
      by (simp add: le_MetaEvent_def a le_defs)
    moreover have "recognised_sub s" using rem by (auto simp: recognised_sub_def)
    ultimately show ?thesis
      using le_RemoteConnParamReq_error [of v h ErrHCIUnknownEvent h'] w
      by (auto simp: s_def)
  next
    case quiet
    then have "le_MetaEvent col v h = Some (None, h)"
      by (auto simp: le_MetaEvent_def a le_defs)
    moreover have "recognised_sub s" using quiet by (auto simp: recognised_sub_def)
    ultimately show ?thesis
      by (auto simp: s_def)
  next
    case unk
    then have "le_MetaEvent col v h = Some (Some ErrHCIUnknownEvent, clearAdvData h)"
      by (simp add: le_MetaEvent_def a recognised_sub_def)
    then show ?thesis using unk True by (auto simp: s_def)
  qed
qed

text \<open>
  C8, as the code has it. The claim also names an unrecognised top-level event code as a
  cause of UnknownEvent, but the outer switch has no default case. Provided that neither
  the transport nor L2CAP hands the error value UnknownEvent back, the decoder returns
  UnknownEvent exactly for a HardwareError event (state unchanged) and for an LE
  meta-event whose sub-event code has no case (the advertising-report slot is cleared
  first); every other frame, recognised or not, does not raise it, and a frame whose
  event code has no case decodes with success and leaves the engine as it was.
\<close>

theorem unknownEvent_exactly:
  assumes w: "wr_err (transport h) \<noteq> Some ErrHCIUnknownEvent"
    and l: "\<And>a b c d. l2cap_addConnection col a b c d \<noteq> Some ErrHCIUnknownEvent"
  shows "(handleEventData col v h = Some (Some ErrHCIUnknownEvent, h') \<longleftrightarrow>
           2 \<le> v_len v \<and>
           (buf h ! v_off v = evtHardwareError \<and> h' = h
            \<or> buf h ! v_off v = evtLEMetaEvent \<and> 3 \<le> v_len v
               \<and> \<not> recognised_sub (buf h ! (v_off v + 2)) \<and> h' = clearAdvData h))
       \<and> (2 \<le> v_len v \<and> \<not> recognised_evt (buf h ! v_off v) \<longrightarrow>
           handleEventData col v h = Some (None, h))"
proof (cases "2 \<le> v_len v")
  case False
  then show ?thesis by (auto simp: handleEventData_def at_def)
next
  case True
  define e where "e = buf h ! v_off v"
  have a: "at (buf h) v 0 = Some e" "at (buf h) v 1 = Some (buf h ! (v_off v + 1))"
    using True by (simp_all add: at_def e_def)
  consider (dis) "e = evtDisconnComplete" | (enc) "e = evtEncryptionChange"
    | (cc) "e = evtCmdComplete" | (cs) "e = evtCmdStatus" | (ncp) "e = evtNumCompPkts"
    | (le) "e = evtLEMetaEvent" | (hw) "e = evtHardwareError" | (other) "\<not> recognised_evt e"
    unfolding recognised_evt_def by blast
  then show ?thesis
  proof cases
    case dis
    then have "handleEventData col v h = evt_DisconnComplete v h"
      using a by (simp add: handleEventData_def)
    then show ?thesis
      using dis w evt_DisconnComplete_error [of v h ErrHCIUnknownEvent h']
      by (auto simp: e_def [symmetric] recognised_evt_def evt_defs)
  next
    case enc
    then have "handleEventData col v h = Some (None, h)"
      using a by (simp add: handleEventData_def evt_defs)
    then show ?thesis
      using enc by (auto simp: e_def [symmetric] recognised_evt_def evt_defs)
  next
    case cc
    then have "handleEventData col v h = evt_CmdComplete v (buf h ! (v_off v + 1)) h"
      using a by (simp add: handleEventData_def evt_defs)
    then show ?thesis
      using cc evt_CmdComplete_error [of v _ h "Some ErrHCIUnknownEvent" h']
      by (auto simp: e_def [symmetric] recognised_evt_def evt_defs)
  next
    case cs
    then have "handleEventData col v h = evt_CmdStatus v h"
      using a by (simp add: handleEventData_def evt_defs)
    then show ?thesis
      using cs evt_CmdStatus_error [of v h "Some ErrHCIUnknownEvent" h']
      by (auto simp: e_def [symmetric] recognised_evt_def evt_defs)
  next
    case ncp
    then have "handleEventData col v h = evt_NumCompPkts v h"
      using a by (simp add: handleEventData_def evt_defs)
    then show ?thesis
      using ncp evt_NumCompPkts_error [of v h "Some ErrHCIUnknownEvent" h']
      by (auto simp: e_def [symmetric] recognised_evt_def evt_defs)
  next
    case le
    then have "handleEventData col v h = le_MetaEvent col v h"
      using a by (simp add: handleEventData_def evt_defs)
    then show ?thesis
      using le True le_MetaEvent_unknown [OF w l, of v h']
      by (auto simp: e_def [symmetric] recognised_evt_def evt_defs)
  next
    case hw
    then have "handleEventData col v h = Some (Some ErrHCIUnknownEvent, h)"
      using a by (simp add: handleEventData_def evt_defs)
    then show ?thesis
      using hw True by (auto simp: e_def [symmetric] recognised_evt_def evt_defs)
  next
    case other
    then have "handleEventData col v h = Some (None, h)"
      using a by (simp add: handleEventData_def recognised_evt_def)
    then show ?thesis
      using other True by (auto simp: e_def [symmetric] recognised_evt_def)
  qed
qed


text \<open>
  Witness for C8: the LE meta-event with sub-event code \<open>0x0B\<close> raises UnknownEvent
  and clears the advertising-report slot.
\<close>

theorem unknownEvent_exactly_witness:
  "handleEventData idle_collab (frame_view le_0b) (holding le_0b (newHCI idle_transport))
   = Some (Some ErrHCIUnknownEvent, clearAdvData (holding le_0b (newHCI idle_transport)))"
proof -
  let ?h = "holding le_0b (newHCI idle_transport)"
  have w: "wr_err (transport ?h) \<noteq> Some ErrHCIUnknownEvent" by code_simp
  have l: "\<And>a b c d. l2cap_addConnection idle_collab a b c d \<noteq> Some ErrHCIUnknownEvent"
    by (simp add: idle_collab_def)
  have r: "2 \<le> v_len (frame_view le_0b) \<and> buf ?h ! v_off (frame_view le_0b) = evtLEMetaEvent
      \<and> 3 \<le> v_len (frame_view le_0b)
      \<and> \<not> recognised_sub (buf ?h ! (v_off (frame_view le_0b) + 2))"
    by code_simp
  from unknownEvent_exactly [OF w l, of "frame_view le_0b" "clearAdvData ?h"] r
  show ?thesis by blast
qed

text \<open>
  Counterexample to C8 as stated: the event code \<open>0xFF\<close> has no case in the decoder,
  and a frame carrying it decodes with success.
\<close>

theorem unknown_event_code_counterexample:
  "\<not> recognised_evt 0xff
   \<and> map_option fst (handleEventData idle_collab (frame_view evt_ff)
        (holding evt_ff (newHCI idle_transport))) = Some None"
  by code_simp

section \<open>Decoding a frame twice\<close>

lemma length_fill_writebuf [simp]:
  "length (fill_writebuf opc ps wb) = 4 + (length wb - 4)"
  by (simp add: fill_writebuf_def copy_into_def bytes16_def)










lemma length_copy_into [simp]: "length (copy_into d s) = length d"
  by (simp add: copy_into_def)













section \<open>The framer loop terminates\<close>

lemma le_MetaEvent_cases:
  assumes "le_MetaEvent col v h = Some r"
  obtains (conn) s where "le_ConnComplete col v s h = Some r"
    | (adv) "le_AdvertisingReport v h = Some r"
    | (rem) "le_RemoteConnParamReq v h = Some r"
    | (quiet) "r = (None, h)"
    | (unk) "r = (Some ErrHCIUnknownEvent, clearAdvData h)"
proof -
  from assms obtain s where a: "at (buf h) v 2 = Some s"
    by (auto simp: le_MetaEvent_def bind_eq_Some_conv)
  consider (c1) "s = leMetaEventConnComplete \<or> s = leMetaEventEnhancedConnectionComplete"
    | (c2) "s = leMetaEventAdvertisingReport"
    | (c3) "s = leMetaEventRemoteConnParamReq"
    | (c4) "s = leMetaEventLongTermKeyRequest \<or> s = leMetaEventConnectionUpdateComplete
        \<or> s = leMetaEventReadLocalP256Complete \<or> s = leMetaEventGenerateDHKeyComplete
        \<or> s = leMetaEventDataLengthChange"
    | (c5) "\<not> recognised_sub s"
    unfolding recognised_sub_def by blast
  then show thesis
  proof cases
    case c1
    then have "le_MetaEvent col v h = le_ConnComplete col v s h"
      by (simp add: le_MetaEvent_def a)
    with assms conn show thesis by simp
  next
    case c2
    then have "le_MetaEvent col v h = le_AdvertisingReport v h"
      by (simp add: le_MetaEvent_def a le_defs)
    with assms adv show thesis by simp
  next
    case c3
    then have "le_MetaEvent col v h = le_RemoteConnParamReq v h"
      by (simp add: le_MetaEvent_def a le_defs)
    with assms rem show thesis by simp
  next
    case c4
    then have "le_MetaEvent col v h = Some (None, h)"
      by (auto simp: le_MetaEvent_def a le_defs)
    with assms quiet show thesis by simp
  next
    case c5
    then have "le_MetaEvent col v h = Some (Some ErrHCIUnknownEvent, clearAdvData h)"
      by (simp add: le_MetaEvent_def a recognised_sub_def)
    with assms unk show thesis by simp
  qed
qed

lemma handleEventData_cases:
  assumes "handleEventData col v h = Some r"
  obtains (dis) "evt_DisconnComplete v h = Some r"
    | (cc) p where "evt_CmdComplete v p h = Some r"
    | (cs) "evt_CmdStatus v h = Some r"
    | (ncp) "evt_NumCompPkts v h = Some r"
    | (le) "le_MetaEvent col v h = Some r"
    | (quiet) "r = (None, h)"
    | (hw) "r = (Some ErrHCIUnknownEvent, h)"
proof -
  from assms obtain ev p where a: "at (buf h) v 0 = Some ev" "at (buf h) v 1 = Some p"
    by (auto simp: handleEventData_def bind_eq_Some_conv)
  consider (c1) "ev = evtDisconnComplete" | (c2) "ev = evtEncryptionChange"
    | (c3) "ev = evtCmdComplete" | (c4) "ev = evtCmdStatus" | (c5) "ev = evtNumCompPkts"
    | (c6) "ev = evtLEMetaEvent" | (c7) "ev = evtHardwareError" | (c8) "\<not> recognised_evt ev"
    unfolding recognised_evt_def by blast
  then show thesis
  proof cases
    case c1
    then have "handleEventData col v h = evt_DisconnComplete v h"
      using a by (simp add: handleEventData_def)
    with assms dis show thesis by simp
  next
    case c2
    then have "handleEventData col v h = Some (None, h)"
      using a by (simp add: handleEventData_def evt_defs)
    with assms quiet show thesis by simp
  next
    case c3
    then have "handleEventData col v h = evt_CmdComplete v p h"
      using a by (simp add: handleEventData_def evt_defs)
    with assms cc show thesis by simp
  next
    case c4
    then have "handleEventData col v h = evt_CmdStatus v h"
      using a by (simp add: handleEventData_def evt_defs)
    with assms cs show thesis by simp
  next
    case c5
    then have "handleEventData col v h = evt_NumCompPkts v h"
      using a by (simp add: handleEventData_def evt_defs)
    with assms ncp show thesis by simp
  next
    case c6
    then have "handleEventData col v h = le_MetaEvent col v h"
      using a by (simp add: handleEventData_def evt_defs)
    with assms le show thesis by simp
  next
    case c7
    then have "handleEventData col v h = Some (Some ErrHCIUnknownEvent, h)"
      using a by (simp add: handleEventData_def evt_defs)
    with assms hw show thesis by simp
  next
    case c8
    then have "handleEventData col v h = Some (None, h)"
      using a by (simp add: handleEventData_def recognised_evt_def)
    with assms quiet show thesis by simp
  qed
qed


lemma le_AdvertisingReport_shape:
  assumes "le_AdvertisingReport v h = Some (e, h')"
  shows "\<exists>ad. h' = h\<lparr>advData := ad\<rparr>"
proof -
  from assms obtain nr ty pbt src eir where u: "at (buf h) v 3 = Some nr"
    "at (buf h) v 4 = Some ty" "at (buf h) v 5 = Some pbt" "slice_from v 6 = Some src"
    "at (buf h) v 12 = Some eir"
    by (auto simp: le_AdvertisingReport_def bind_eq_Some_conv)
  show ?thesis
  proof (cases "unat (13 + eir + 1) > v_len v \<or> eir > 31")
    case True
    then show ?thesis
      using assms u by (auto simp: le_AdvertisingReport_def Let_def)
  next
    case False
    with assms u obtain sv where sv: "slice (buf h) v 13 (unat (13 + eir)) = Some sv"
      and ln: "unat eir \<le> length (eirData (advData h))"
      by (auto simp: le_AdvertisingReport_def Let_def bind_eq_Some_conv split: if_splits)
    show ?thesis
    proof (cases "nr = 1")
      case True
      with assms u False sv ln obtain r where "at (buf h) v (unat (13 + eir)) = Some r"
        by (auto simp: le_AdvertisingReport_def Let_def bind_eq_Some_conv split: if_splits)
      then show ?thesis
        using assms u False sv ln True
        by (auto simp: le_AdvertisingReport_def Let_def)
    next
      case nr: False
      show ?thesis
        using assms u False sv ln nr
        by (auto simp: le_AdvertisingReport_def Let_def)
    qed
  qed
qed

lemma sendWithoutResponse_untouched:
  "sendWithoutResponse opc ps h = Some (e, h') \<Longrightarrow> untouched h h'"
  by (auto simp: untouched_def sendWithoutResponse_def hci_write_def Let_def
      split: if_splits option.splits)

lemma le_MetaEvent_untouched:
  assumes "le_MetaEvent col v h = Some (e, h')"
  shows "untouched h h'"
  using assms
proof (cases rule: le_MetaEvent_cases)
  case (conn s)
  then show ?thesis
    by (auto simp: untouched_def le_ConnComplete_def Let_def bind_eq_Some_conv
        leSetAdvertiseEnable_def dest!: sendWithoutResponse_untouched split: option.splits)
next
  case adv
  then show ?thesis by (auto simp: untouched_def dest!: le_AdvertisingReport_shape)
next
  case rem
  then show ?thesis
    by (auto simp: le_RemoteConnParamReq_def bind_eq_Some_conv
        dest!: sendWithoutResponse_untouched)
next
  case quiet
  then show ?thesis by (simp add: untouched_def)
next
  case unk
  then show ?thesis by (simp add: untouched_def clearAdvData_def)
qed

lemma handleEventData_untouched:
  assumes "handleEventData col v h = Some (e, h')"
  shows "untouched h h'"
  using assms
proof (cases rule: handleEventData_cases)
  case dis
  then show ?thesis
    by (auto simp: untouched_def evt_DisconnComplete_def bind_eq_Some_conv
        leSetAdvertiseEnable_def dest!: sendWithoutResponse_untouched)
next
  case (cc p)
  then show ?thesis
    by (auto simp: untouched_def evt_CmdComplete_def bind_eq_Some_conv split: if_splits)
next
  case cs
  then show ?thesis by (auto simp: untouched_def evt_CmdStatus_def bind_eq_Some_conv)
next
  case ncp
  then show ?thesis by (auto simp: untouched_def evt_NumCompPkts_def bind_eq_Some_conv)
next
  case le
  then show ?thesis by (rule le_MetaEvent_untouched)
next
  case quiet
  then show ?thesis by (simp add: untouched_def)
next
  case hw
  then show ?thesis by (simp add: untouched_def)
qed

lemma handleACLData_untouched:
  assumes "handleACLData col v h = Some (e, h')"
  shows "untouched h h'"
proof -
  from assms obtain hnd dlen ln cid where u: "Uint16_at (buf h) v 0 = Some hnd"
    "Uint16_at (buf h) v 2 = Some dlen" "Uint16_at (buf h) v 4 = Some ln"
    "Uint16_at (buf h) v 6 = Some cid"
    by (auto simp: handleACLData_def bind_eq_Some_conv)
  show ?thesis
    using assms u
    by (auto simp: handleACLData_def untouched_def bind_eq_Some_conv split: if_splits)
qed


lemma processPacket_cases:
  assumes "processPacket col h = Some (d, e, h')"
  obtains (idle) "\<not> d" "e = None" "h' = h"
    | (acl) v and w :: u16 where "d" "at (buf h) (whole h) 0 = Some hciACLDataPkt"
        "handleACLData col v (h\<lparr>pos := hciACLLenPos + unat w + 1\<rparr>) = Some (e, h')"
    | (evt) v b where "d" "at (buf h) (whole h) 0 = Some hciEventPkt"
        "at (buf h) (whole h) hciEvtLenPos = Some b"
        "slice (buf h) (whole h) 1 (hciEvtLenPos + unat b + 1) = Some v"
        "handleEventData col v (h\<lparr>pos := hciEvtLenPos + unat b + 1,
            decoded := decoded h @ [vbytes (buf h) v]\<rparr>) = Some (e, h')"
    | (syn) b :: u8 where "d" "e = None" "h' = h\<lparr>pos := 1 + 3 + unat b\<rparr>"
    | (unknown) "d" "e = Some ErrHCIUnknown" "h' = h"
proof -
  obtain tag where t: "at (buf h) (whole h) 0 = Some tag"
    using assms by (auto simp: processPacket_def bind_eq_Some_conv)
  consider (c1) "tag = hciACLDataPkt" | (c2) "tag = hciEventPkt"
    | (c3) "tag = hciSynchronousDataPkt"
    | (c4) "tag \<noteq> hciACLDataPkt" "tag \<noteq> hciEventPkt" "tag \<noteq> hciSynchronousDataPkt"
    by blast
  then show thesis
  proof cases
    case c1
    then have eq: "processPacket col h =
       (if pos h > hciACLLenPos then do {
          lv \<leftarrow> slice (buf h) (whole h) 3 5;
          w \<leftarrow> Uint16 (buf h) lv;
          if endp h < hciACLLenPos + unat w then Some (False, None, h)
          else if pos h \<ge> hciACLLenPos + unat w then do {
            v \<leftarrow> slice (buf h) (whole h) 1 (hciACLLenPos + unat w + 1);
            r \<leftarrow> handleACLData col v (h\<lparr>pos := hciACLLenPos + unat w + 1\<rparr>);
            Some (True, fst r, snd r)
          }
          else Some (False, None, h)
        }
        else Some (False, None, h))"
      using t by (simp add: processPacket_def)
    show thesis
    proof (cases "pos h > hciACLLenPos")
      case False
      with assms eq idle show thesis by simp
    next
      case True
      with assms eq obtain lv w where w: "slice (buf h) (whole h) 3 5 = Some lv"
        "Uint16 (buf h) lv = Some w"
        by (auto simp: bind_eq_Some_conv)
      show thesis
      proof (cases "endp h < hciACLLenPos + unat w \<or> \<not> pos h \<ge> hciACLLenPos + unat w")
        case True
        with assms eq w \<open>pos h > hciACLLenPos\<close> idle show thesis by (auto split: if_splits)
      next
        case False
        with assms eq w \<open>pos h > hciACLLenPos\<close> acl [of _ w] c1 t show thesis
          by (auto simp: bind_eq_Some_conv)
      qed
    qed
  next
    case c2
    then have eq: "processPacket col h =
       (if pos h > hciEvtLenPos then do {
          b \<leftarrow> at (buf h) (whole h) hciEvtLenPos;
          if endp h < hciEvtLenPos + unat b then Some (False, None, h)
          else if pos h \<ge> hciEvtLenPos + unat b then do {
            v \<leftarrow> slice (buf h) (whole h) 1 (hciEvtLenPos + unat b + 1);
            r \<leftarrow> handleEventData col v
                  (h\<lparr>pos := hciEvtLenPos + unat b + 1,
                     decoded := decoded h @ [vbytes (buf h) v]\<rparr>);
            Some (True, fst r, snd r)
          }
          else Some (False, None, h)
        }
        else Some (False, None, h))"
      using t by (simp add: processPacket_def hciACLDataPkt_def hciEventPkt_def)
    show thesis
    proof (cases "pos h > hciEvtLenPos")
      case False
      with assms eq idle show thesis by simp
    next
      case True
      with assms eq obtain b where b: "at (buf h) (whole h) hciEvtLenPos = Some b"
        by (auto simp: bind_eq_Some_conv)
      show thesis
      proof (cases "endp h < hciEvtLenPos + unat b \<or> \<not> pos h \<ge> hciEvtLenPos + unat b")
        case True
        with assms eq b \<open>pos h > hciEvtLenPos\<close> idle show thesis by (auto split: if_splits)
      next
        case False
        with assms eq b \<open>pos h > hciEvtLenPos\<close> evt [of b] c2 t show thesis
          by (auto simp: bind_eq_Some_conv)
      qed
    qed
  next
    case c3
    then have eq: "processPacket col h =
       (if pos h > 3 then do {
          b \<leftarrow> at (buf h) (whole h) 3;
          Some (True, None, h\<lparr>pos := 1 + 3 + unat b\<rparr>)
        }
        else Some (False, None, h))"
      using t by (simp add: processPacket_def hciACLDataPkt_def hciEventPkt_def
          hciSynchronousDataPkt_def)
    with assms idle syn show thesis
      by (auto simp: bind_eq_Some_conv split: if_splits)
  next
    case c4
    then have "processPacket col h = Some (True, Some ErrHCIUnknown, h)"
      using t by (simp add: processPacket_def)
    with assms unknown show thesis by simp
  qed
qed


lemma processPacket_basic:
  assumes "processPacket col h = Some (d, e, h')"
  shows "rx (transport h') = rx (transport h) \<and> endp h' = endp h \<and> (\<not> d \<longrightarrow> h' = h)"
  using assms
proof (cases rule: processPacket_cases)
  case (acl v w)
  then show ?thesis by (auto simp: untouched_def dest!: handleACLData_untouched)
next
  case (evt v b)
  then show ?thesis by (auto simp: untouched_def dest!: handleEventData_untouched)
qed simp_all

lemma aligned_ge: "available \<le> aligned available"
  by (simp add: aligned_def)

lemma poll_read_basic:
  assumes "poll_read h = Some (None, h0)"
  shows "rx (transport h0) = [] \<and> (rx (transport h) = [] \<longrightarrow> h0 = h)"
  using assms aligned_ge [of "length (rx (transport h))"]
  by (auto simp: poll_read_def Let_def min_def split: if_splits option.splits)

lemma poll_iter_Inr:
  assumes "poll_iter col h = Some (Inr h')"
  obtains h0 d e h1 where "poll_read h = Some (None, h0)"
    "processPacket col (h0\<lparr>pos := pos h0 + 1\<rparr>) = Some (d, e, h1)"
    "h' = h1\<lparr>pos := 0, endp := 0\<rparr> \<or> (h' = h1 \<and> \<not> d \<and> \<not> pos h1 > endp h1)"
proof -
  from assms obtain h0 where r: "poll_read h = Some (None, h0)"
    by (auto simp: poll_iter_def split: option.splits)
  with assms obtain d e h1 where
    p: "processPacket col (h0\<lparr>pos := pos h0 + 1\<rparr>) = Some (d, e, h1)"
    by (auto simp: poll_iter_def split: option.splits)
  from assms r p have "h' = h1\<lparr>pos := 0, endp := 0\<rparr> \<or> (h' = h1 \<and> \<not> d \<and> \<not> pos h1 > endp h1)"
    by (auto simp: poll_iter_def split: if_splits)
  with r p that show thesis by blast
qed

lemma poll_iter_decrease:
  assumes "poll_iter col h = Some (Inr h')"
    and "length (rx (transport h)) > 0 \<or> endp h > pos h"
  shows "((col, h'), (col, h))
     \<in> measures [\<lambda>(c, h). length (rx (transport h)), \<lambda>(c, h). endp h + 1 - pos h]"
  using assms(1)
proof (cases rule: poll_iter_Inr)
  case (1 h0 d e h1)
  note rb = poll_read_basic [OF 1(1)]
  note pb = processPacket_basic [OF 1(2)]
  have rx': "rx (transport h') = []" using 1(3) rb pb by auto
  show ?thesis
  proof (cases "rx (transport h) = []")
    case False
    then show ?thesis using rx' by simp
  next
    case True
    then have h0: "h0 = h" and lt: "endp h > pos h" using rb assms(2) by auto
    from 1(3) show ?thesis
    proof
      assume "h' = h1\<lparr>pos := 0, endp := 0\<rparr>"
      then show ?thesis using rx' True lt by simp
    next
      assume a: "h' = h1 \<and> \<not> d \<and> \<not> pos h1 > endp h1"
      then have "h1 = h\<lparr>pos := pos h + 1\<rparr>" using pb h0 by simp
      then show ?thesis using a rx' True lt by simp
    qed
  qed
qed

termination poll
proof (relation "measures [\<lambda>(c, h). length (rx (transport h)), \<lambda>(c, h). endp h + 1 - pos h]")
  show "wf (measures [\<lambda>(c, h). length (rx (transport h)), \<lambda>(c, h). endp h + 1 - pos h])"
    by simp
next
  fix col h x2 h'
  assume "0 < length (rx (transport h)) \<or> pos h < endp h"
    and "poll_iter col h = Some x2" and "x2 = Inr h'"
  then show "((col, h'), (col, h))
     \<in> measures [\<lambda>(c, h). length (rx (transport h)), \<lambda>(c, h). endp h + 1 - pos h]"
    using poll_iter_decrease [of col h h'] by simp
qed

declare poll.simps [simp del]

section \<open>The blocking call and the sentinel\<close>

lemma sendCommandWithParams_sent:
  assumes "wr_err (transport h) = None" and "length params + 4 \<le> 4 + (length (writebuf h) - 4)"
  shows "sendCommandWithParams col opcode params start steps h
     = wait_loop col opcode start steps (sent opcode params h)"
  using assms by (simp add: sendCommandWithParams_def hci_write_def sent_def Let_def)


text \<open>
  C10. A blocking call with opcode \<open>0xFFFF\<close>, on an engine whose transport accepts
  the write, with at most 252 parameter bytes: whatever the surroundings offer, the call
  returns success with the engine as it is right after the write and the reset of the
  completion slot. The framer has not run: nothing was read from the transport, no frame
  was decoded, the packet buffer is as before, and the only effect on the transport is
  the command frame written.
\<close>

theorem sentinel_opcode_returns_at_once:
  assumes "wr_err (transport h) = None" and "length params \<le> 252"
    and "length (writebuf h) = 256"
  shows "sendCommandWithParams col 0xffff params start steps h
           = Returned None (sent 0xffff params h)
       \<and> rx (transport (sent 0xffff params h)) = rx (transport h)
       \<and> decoded (sent 0xffff params h) = decoded h
       \<and> buf (sent 0xffff params h) = buf h
       \<and> tx (transport (sent 0xffff params h))
          = tx (transport h) @ [[hciCommandPkt, 0xff, 0xff, of_nat (length params)] @ params]"
proof -
  have "sendCommandWithParams col 0xffff params start steps h
     = wait_loop col 0xffff start steps (sent 0xffff params h)"
    using assms by (intro sendCommandWithParams_sent) simp_all
  moreover have "cmdCompleteOpcode (sent 0xffff params h) = 0xffff"
    by (simp add: sent_def)
  ultimately have "sendCommandWithParams col 0xffff params start steps h
           = Returned None (sent 0xffff params h)"
    by (cases steps) auto
  moreover have "take (4 + length params) (fill_writebuf 0xffff params (writebuf h))
      = [hciCommandPkt, 0xff, 0xff, of_nat (length params)] @ params"
  proof -
    have t4: "\<And>a b c d (xs :: u8 list) n. take (4 + n) (a # b # c # d # xs) = a # b # c # d # take n xs"
      by (simp add: eval_nat_numeral)
    have w: "(ucast (0xffff :: u16) :: u8) = 0xff" "(ucast (drop_bit 8 (0xffff :: u16)) :: u8) = 0xff"
      by simp_all
    show ?thesis
      using assms(2,3) unfolding fill_writebuf_def bytes16_def copy_into_def w
      by (simp add: t4)
  qed
  ultimately show ?thesis by (simp add: sent_def)
qed

text \<open>
  Witness for C10: opcode \<open>0xFFFF\<close> on a fresh engine, while a completion for Reset
  is on its way.
\<close>

theorem sentinel_opcode_returns_at_once_witness:
  "sendCommandWithParams idle_collab 0xffff [] 0 [(reset_complete, 1)] (newHCI idle_transport)
     = Returned None (sent 0xffff [] (newHCI idle_transport))
   \<and> rx (transport (sent 0xffff [] (newHCI idle_transport))) = []
   \<and> decoded (sent 0xffff [] (newHCI idle_transport)) = []"
proof -
  have 1: "wr_err (transport (newHCI idle_transport)) = None" by code_simp
  have 2: "length ([] :: u8 list) \<le> 252" by simp
  have 3: "length (writebuf (newHCI idle_transport)) = 256" by code_simp
  have 4: "rx (transport (newHCI idle_transport)) = []" by code_simp
  have 5: "decoded (newHCI idle_transport) = []" by code_simp
  from sentinel_opcode_returns_at_once [OF 1 2 3, of idle_collab 0 "[(reset_complete, 1)]"] 4 5
  show ?thesis by simp
qed

section \<open>The Reset example\<close>





section \<open>The read of the framer loop\<close>

text \<open>
  The requested length is the number of waiting bytes rounded up to the next multiple
  of four, and the read panics exactly when that request overruns the buffer.
\<close>

lemma aligned_round_up: "aligned n mod 4 = 0 \<and> n \<le> aligned n \<and> aligned n < n + 4"
proof -
  define r where "r = n mod 4"
  define q where "q = n div 4"
  have n: "n = 4 * q + r" by (simp add: r_def q_def)
  have a: "aligned n = n + (4 - r) mod 4" by (simp add: aligned_def r_def)
  have "r < 4" by (simp add: r_def)
  then consider "r = 0" | "r = 1" | "r = 2" | "r = 3" by linarith
  then show ?thesis
  proof cases
    case 1
    then show ?thesis using a n by simp
  next
    case 2
    then have "aligned n = 4 * (q + 1)" using a n by simp
    then show ?thesis using n 2 by simp
  next
    case 3
    then have "aligned n = 4 * (q + 1)" using a n by simp
    then show ?thesis using n 3 by simp
  next
    case 4
    then have "aligned n = 4 * (q + 1)" using a n by simp
    then show ?thesis using n 4 by simp
  qed
qed

lemma poll_read_panics_iff:
  "poll_read h = None \<longleftrightarrow>
     rx (transport h) \<noteq> [] \<and> length (buf h) < endp h + aligned (length (rx (transport h)))"
  by (auto simp: poll_read_def Let_def split: option.splits)

text \<open>
  C1 fails on the code. The first framer pass takes in the 254 bytes \<open>acl_head\<close> of a
  256-byte ACL frame and leaves the fill level at 254, the frame being incomplete. When
  the remaining two bytes have arrived, the next pass asks for \<open>aligned 2 = 4\<close> bytes
  in \<open>h.buf[254:258]\<close>, beyond the 256-byte buffer, and the slice expression panics.
\<close>

theorem poll_read_overruns_buffer:
  "aligned 2 = 4
   \<and> (case map_option snd (poll idle_collab (arrive acl_head (newHCI idle_transport))) of
        None \<Rightarrow> False
      | Some h \<Rightarrow> endp h = 254 \<and> length (buf h) = 256
          \<and> length (buf h) < endp h + aligned 2
          \<and> poll idle_collab (arrive [0, 0] h) = None)"
  by code_simp

end
